theory Spec2Isabelle
  imports Complex_Main "HOL-Library.Multiset"
begin

section \<open>Hexagonal grid rendering and hit-testing (Render.py)\<close>

text \<open>
  The embedding follows \<^verbatim>\<open>Render.py\<close>. Python floats are read as exact reals, so
  \<^verbatim>\<open>math.sqrt(3)\<close> is \<open>sqrt 3\<close>, \<^verbatim>\<open>math.floor\<close> and \<^verbatim>\<open>math.ceil\<close> are the integer floor
  and ceiling, and float rounding is outside the model. Rows and columns are integers;
  the modulus by 2 is Python's (the result is never negative), which is \<open>mod\<close> on \<open>int\<close>.
\<close>

subsection \<open>Data model\<close>

type_synonym cell = "int \<times> int"
type_synonym point = "real \<times> real"
type_synonym color = "nat \<times> nat \<times> nat \<times> nat"
type_synonym pixels = "int \<times> int \<Rightarrow> color"

text \<open>
  Modelled from the spec: the map object (class \<^verbatim>\<open>Map\<close> of \<^verbatim>\<open>Map.py\<close>) is not part of
  the sources; the renderers read its \<open>rows\<close>, \<open>cols\<close>, its \<open>valid_cell\<close> predicate and
  its \<open>positions\<close> dictionary. The dictionary is the list of its items in the order the
  iteration yields them. The predicate is a field: nothing is assumed about it.
\<close>

record 'u hexmap =
  rows :: int
  cols :: int
  valid_cell :: "cell \<Rightarrow> bool"
  positions :: "(cell \<times> 'u) list"

text \<open>
  \<^verbatim>\<open>pygame.Rect(left, top, width, height)\<close>, with the coordinates as the source computes
  them; the rounding of the library's rectangles to whole pixels is outside the model.
\<close>

record rect =
  rect_left :: real
  rect_top :: real
  rect_width :: real
  rect_height :: real

text \<open>
  An instance of \<^verbatim>\<open>Render\<close>: the fields set by \<^verbatim>\<open>__init__\<close>, and the state of the
  surface it inherits from (its colorkey, \<open>None\<close> when unset, and its pixel buffer).
\<close>

record 'u Render =
  self_map :: "'u hexmap"
  radius :: real
  colorkey :: "color option"
  buffer :: pixels

datatype error = ZeroDivisionError | ValueError

definition SQRT3 :: real where
  "SQRT3 = sqrt 3"

definition GRID_COLOR :: color where
  "GRID_COLOR = (50, 50, 50, 255)"

definition magenta :: color where
  "magenta = (255, 0, 255, 255)"

subsection \<open>Geometry\<close>

definition Render_width :: "'u Render \<Rightarrow> real" where
  "Render_width self =
     of_int \<lceil>of_int (cols (self_map self)) / (2 :: real)\<rceil> * 2 * radius self +
     of_int \<lfloor>of_int (cols (self_map self)) / (2 :: real)\<rfloor> * radius self + 1"

definition Render_height :: "'u Render \<Rightarrow> real" where
  "Render_height self = (of_int (rows (self_map self)) + 0.5) * radius self * SQRT3 + 1"

text \<open>
  Lines 34 to 38 of \<^verbatim>\<open>get_surface\<close>: the rectangle of a cell.
\<close>

definition get_surface_rect :: "'u Render \<Rightarrow> cell \<Rightarrow> rect" where
  "get_surface_rect self c = (case c of (row, col) \<Rightarrow>
     let width = 2 * radius self;
         height = radius self * SQRT3;
         top = (of_int row - of_int \<lceil>of_int col / (2 :: real)\<rceil>) * height +
               (if col mod 2 = 1 then height / 2 else 0);
         left = 1.5 * radius self * of_int col
     in \<lparr>rect_left = left, rect_top = top, rect_width = width, rect_height = height\<rparr>)"

text \<open>
  A rectangle lies inside a canvas of the given width and height: the condition under
  which the surface has a sub-view on it.
\<close>

definition rect_inside :: "rect \<Rightarrow> real \<Rightarrow> real \<Rightarrow> bool" where
  "rect_inside rc w h =
     (0 \<le> rect_left rc \<and> 0 \<le> rect_top rc \<and>
      rect_left rc + rect_width rc \<le> w \<and> rect_top rc + rect_height rc \<le> h)"

text \<open>
  \<^verbatim>\<open>get_surface\<close>, with line 40: \<^verbatim>\<open>self.subsurface\<close> gives the sub-view on the rectangle, which
  the rectangle identifies, and raises \<^verbatim>\<open>ValueError\<close> when the rectangle does not lie inside
  the surface. The surface has the size \<^verbatim>\<open>__init__\<close> gave it, \<^verbatim>\<open>(self.width, self.height)\<close>.
\<close>

definition get_surface :: "'u Render \<Rightarrow> cell \<Rightarrow> error + rect" where
  "get_surface self c =
     (let rc = get_surface_rect self c
      in if rect_inside rc (Render_width self) (Render_height self)
         then Inr rc else Inl ValueError)"

text \<open>
  Lines 64 to 86 of \<^verbatim>\<open>get_cell\<close>: the row and column resolved before the validity
  check. The names \<open>row\<close>, \<open>col\<close>, \<open>x\<close> and \<open>y\<close> are rebound in the order of the source.
\<close>

definition get_cell_resolve :: "real \<Rightarrow> point \<Rightarrow> cell" where
  "get_cell_resolve r p = (case p of (x, y) \<Rightarrow>
     let row = \<lfloor>y / (SQRT3 * r)\<rfloor>;
         col = \<lfloor>x / (1.5 * r)\<rfloor>;
         x = x - of_int col * 1.5 * r;
         y = y - of_int row * SQRT3 * r;
         row = row + \<lfloor>(of_int col + 1) / (2 :: real)\<rfloor>
     in if col mod 2 = 0 then
          (if y < SQRT3 * r / 2 \<and> x < 0.5 * r \<and> y < SQRT3 * r / 2 - x
             then (row - 1, col - 1)
           else if y > SQRT3 * r / 2 \<and> x < 0.5 * r \<and> y > SQRT3 * r / 2 + x
             then (row, col - 1)
           else (row, col))
        else
          (if x < 0.5 * r \<and> \<bar>y - SQRT3 * r / 2\<bar> < SQRT3 * r / 2 - x
             then (row - 1, col - 1)
           else if y < SQRT3 * r / 2
             then (row - 1, col)
           else (row, col)))"

text \<open>
  \<^verbatim>\<open>get_cell\<close>: the two divisions of lines 64 and 65 raise \<^verbatim>\<open>ZeroDivisionError\<close> when the
  radius is zero; otherwise the resolved cell is returned when the map accepts it, and
  \<^verbatim>\<open>None\<close> when it does not.
\<close>

definition get_cell :: "'u Render \<Rightarrow> point \<Rightarrow> error + cell option" where
  "get_cell self p =
     (if radius self = 0 then Inl ZeroDivisionError
      else let c = get_cell_resolve (radius self) p
           in Inr (if valid_cell (self_map self) c then Some c else None))"

text \<open>The centre of a rectangle.\<close>

definition rect_center :: "rect \<Rightarrow> point" where
  "rect_center rc = (rect_left rc + rect_width rc / 2, rect_top rc + rect_height rc / 2)"

text \<open>
  The algorithm of the specification (section 4.1, \<open>PixelToCell\<close>), written from its
  words: coarse bucket, local offset, axial correction, boundary refinement.
\<close>

definition PixelToCell :: "real \<Rightarrow> real \<Rightarrow> real \<Rightarrow> cell" where
  "PixelToCell x y r =
     (let row0 = \<lfloor>y / (sqrt 3 * r)\<rfloor>;
          col0 = \<lfloor>x / (1.5 * r)\<rfloor>;
          lx = x - of_int col0 * 1.5 * r;
          ly = y - of_int row0 * sqrt 3 * r;
          row1 = row0 + \<lfloor>(of_int col0 + 1) / (2 :: real)\<rfloor>
      in if even col0 then
           (if ly < sqrt 3 * r / 2 \<and> lx < 0.5 * r \<and> ly < sqrt 3 * r / 2 - lx
              then (row1 - 1, col0 - 1)
            else if ly > sqrt 3 * r / 2 \<and> lx < 0.5 * r \<and> ly > sqrt 3 * r / 2 + lx
              then (row1, col0 - 1)
            else (row1, col0))
         else
           (if lx < 0.5 * r \<and> \<bar>ly - sqrt 3 * r / 2\<bar> < sqrt 3 * r / 2 - lx
              then (row1 - 1, col0 - 1)
            else if ly < sqrt 3 * r / 2
              then (row1 - 1, col0)
            else (row1, col0)))"

subsection \<open>Drawing\<close>

text \<open>
  Modelled from the spec: the drawing library and the units' \<^verbatim>\<open>paint\<close> methods are not
  part of the sources (section 6: a polygon outline from a point list, a colour and a
  line width; \<^verbatim>\<open>paint(surface)\<close> on a rectangular sub-view). Each is a function on the
  pixel buffer, a parameter of the model, and is taken not to raise.
\<close>

record 'u backend =
  polygon :: "color \<Rightarrow> point list \<Rightarrow> int \<Rightarrow> pixels \<Rightarrow> pixels"
  paint :: "'u \<Rightarrow> rect \<Rightarrow> pixels \<Rightarrow> pixels"

text \<open>
  Modelled from the spec: \<^verbatim>\<open>fill(color)\<close> of the surface, which gives every pixel the
  colour.
\<close>

definition fill :: "color \<Rightarrow> pixels \<Rightarrow> pixels" where
  "fill c b = (\<lambda>_. c)"

text \<open>
  The calls a \<^verbatim>\<open>draw\<close> method makes on its surface, in order: \<^verbatim>\<open>self.set_colorkey\<close>,
  \<^verbatim>\<open>self.fill\<close>, \<^verbatim>\<open>pygame.draw.polygon(self, color, points, width)\<close>, and \<^verbatim>\<open>unit.paint\<close>
  on the sub-view of a rectangle.
\<close>

datatype 'u call =
    Set_colorkey color
  | Fill color
  | Polygon color "point list" int
  | Paint 'u rect

fun exec :: "'u backend \<Rightarrow> 'u Render \<Rightarrow> 'u call \<Rightarrow> 'u Render" where
  "exec be self (Set_colorkey c) = self\<lparr>colorkey := Some c\<rparr>"
| "exec be self (Fill c) = self\<lparr>buffer := fill c (buffer self)\<rparr>"
| "exec be self (Polygon c points w) = self\<lparr>buffer := polygon be c points w (buffer self)\<rparr>"
| "exec be self (Paint unit rc) = self\<lparr>buffer := paint be unit rc (buffer self)\<rparr>"

text \<open>\<^verbatim>\<open>range(n)\<close> for an integer \<open>n\<close>: empty when \<open>n \<le> 0\<close>.\<close>

definition py_range :: "int \<Rightarrow> int list" where
  "py_range n = [0..n - 1]"

text \<open>
  \<^verbatim>\<open>Render.draw\<close>: \<^verbatim>\<open>get_colorkey()\<close> is \<^verbatim>\<open>None\<close> or a colour tuple, and only \<^verbatim>\<open>None\<close> is
  false in the test \<^verbatim>\<open>if not color\<close>.
\<close>

definition Render_draw_calls :: "'u Render \<Rightarrow> 'u call list" where
  "Render_draw_calls self =
     (case colorkey self of
        None \<Rightarrow> [Set_colorkey magenta, Fill magenta]
      | Some color \<Rightarrow> [Fill color])"

text \<open>
  The loop of \<^verbatim>\<open>RenderUnits.draw\<close> over the items of \<^verbatim>\<open>positions\<close>: the calls it makes,
  and the exception that ends it, if any. The loop stops at the first item for which
  \<^verbatim>\<open>get_surface\<close> raises.
\<close>

fun RenderUnits_loop :: "'u Render \<Rightarrow> (cell \<times> 'u) list \<Rightarrow> 'u call list \<times> error option" where
  "RenderUnits_loop self [] = ([], None)"
| "RenderUnits_loop self ((position, unit) # items) =
     (case get_surface self position of
        Inl e \<Rightarrow> ([], Some e)
      | Inr surface \<Rightarrow>
          (case RenderUnits_loop self items of
             (calls, e) \<Rightarrow> (Paint unit surface # calls, e)))"

text \<open>
  \<^verbatim>\<open>RenderUnits.draw\<close>: the calls made on the surface, the exception raised, and the
  renderer the method leaves, whether it returns or raises.
\<close>

definition RenderUnits_draw_calls :: "'u Render \<Rightarrow> 'u call list" where
  "RenderUnits_draw_calls self =
     Render_draw_calls self @ fst (RenderUnits_loop self (positions (self_map self)))"

definition RenderUnits_draw_raises :: "'u Render \<Rightarrow> error option" where
  "RenderUnits_draw_raises self = snd (RenderUnits_loop self (positions (self_map self)))"

definition RenderUnits_draw :: "'u backend \<Rightarrow> 'u Render \<Rightarrow> 'u Render" where
  "RenderUnits_draw be self = foldl (exec be) self (RenderUnits_draw_calls self)"

text \<open>\<^verbatim>\<open>RenderGrid.draw\<close>: the point list \<^verbatim>\<open>cell\<close>, then the two loops.\<close>

definition hex_cell :: "real \<Rightarrow> point list" where
  "hex_cell r =
     [(0.5 * r, 0), (1.5 * r, 0), (2 * r, SQRT3 / 2 * r),
      (1.5 * r, SQRT3 * r), (0.5 * r, SQRT3 * r), (0, SQRT3 / 2 * r)]"

definition RenderGrid_draw_calls :: "'u Render \<Rightarrow> 'u call list" where
  "RenderGrid_draw_calls self =
     Render_draw_calls self @
     concat (map (\<lambda>col.
       let offset = (if col mod 2 \<noteq> 0 then radius self * SQRT3 / 2 else 0)
       in map (\<lambda>row.
            let top = offset + SQRT3 * of_int row * radius self;
                left = 1.5 * of_int col * radius self;
                points = map (\<lambda>(x, y). (x + left, y + top)) (hex_cell (radius self))
            in Polygon GRID_COLOR points 1)
          (py_range (rows (self_map self))))
       (py_range (cols (self_map self))))"

definition RenderGrid_draw :: "'u backend \<Rightarrow> 'u Render \<Rightarrow> 'u Render" where
  "RenderGrid_draw be self = foldl (exec be) self (RenderGrid_draw_calls self)"

text \<open>
  The hexagon inscribed in the box of width \<open>2 r\<close> and height \<open>\<surd>3 r\<close> whose top-left
  corner is \<open>(l, t)\<close>: its corners, from the upper left one, clockwise on the screen.
\<close>

definition hexagon_corners :: "real \<Rightarrow> real \<Rightarrow> real \<Rightarrow> point list" where
  "hexagon_corners r l t =
     [(l + r / 2, t), (l + 3 * r / 2, t), (l + 2 * r, t + sqrt 3 * r / 2),
      (l + 3 * r / 2, t + sqrt 3 * r), (l + r / 2, t + sqrt 3 * r), (l, t + sqrt 3 * r / 2)]"

text \<open>The square of the distance between two points.\<close>

definition sq_dist :: "point \<Rightarrow> point \<Rightarrow> real" where
  "sq_dist p q = (fst p - fst q)\<^sup>2 + (snd p - snd q)\<^sup>2"

text \<open>
  A regular hexagon of side \<open>r\<close> about a centre: six distinct corners, each at distance
  \<open>r\<close> from the centre and at distance \<open>r\<close> from the next one, the last one from the
  first.
\<close>

definition regular_hexagon :: "real \<Rightarrow> point \<Rightarrow> point list \<Rightarrow> bool" where
  "regular_hexagon r c ps =
     (length ps = 6 \<and> distinct ps \<and>
      map (sq_dist c) ps = replicate 6 (r\<^sup>2) \<and>
      map2 sq_dist ps (rotate1 ps) = replicate 6 (r\<^sup>2))"

text \<open>The smallest rectangle with sides along the axes that holds the points.\<close>

definition bounding_box :: "point list \<Rightarrow> rect" where
  "bounding_box ps =
     \<lparr>rect_left = Min (set (map fst ps)), rect_top = Min (set (map snd ps)),
      rect_width = Max (set (map fst ps)) - Min (set (map fst ps)),
      rect_height = Max (set (map snd ps)) - Min (set (map snd ps))\<rparr>"

text \<open>
  The effect on the pixel buffer of a call that is neither \<open>Set_colorkey\<close> nor \<open>Fill\<close>.
\<close>

fun on_pixels :: "'u backend \<Rightarrow> pixels \<Rightarrow> 'u call \<Rightarrow> pixels" where
  "on_pixels be b (Polygon c points w) = polygon be c points w b"
| "on_pixels be b (Paint unit rc) = paint be unit rc b"
| "on_pixels be b (Fill c) = fill c b"
| "on_pixels be b (Set_colorkey c) = b"

subsection \<open>The demonstration set-up\<close>

text \<open>
  Modelled from the spec: \<^verbatim>\<open>Map.valid_cell\<close> is not part of the sources. Section 8 of the
  specification rejects every cell whose column is outside \<open>[0, cols)\<close> or whose row is
  outside \<open>[0, rows)\<close>; this predicate accepts exactly the other cells.
\<close>

definition in_grid :: "int \<Rightarrow> int \<Rightarrow> cell \<Rightarrow> bool" where
  "in_grid nrows ncols c = (case c of (row, col) \<Rightarrow>
     0 \<le> col \<and> col < ncols \<and> 0 \<le> row \<and> row < nrows)"

text \<open>
  The map and the renderer of the \<^verbatim>\<open>__main__\<close> block: five rows, five columns, units
  (numbered here) on four cells, radius 32, no colorkey yet.
\<close>

definition demo_map :: "nat hexmap" where
  "demo_map = \<lparr>rows = 5, cols = 5, valid_cell = in_grid 5 5,
     positions = [((0, 0), 0), ((3, 2), 1), ((5, 3), 2), ((5, 4), 3)]\<rparr>"

definition demo_render :: "nat Render" where
  "demo_render = \<lparr>self_map = demo_map, radius = 32, colorkey = None,
     buffer = (\<lambda>_. (0, 0, 0, 255))\<rparr>"

text \<open>
  The same map and renderer with units on three cells, the second one, \<open>(0, 1)\<close>, in
  the top row of an odd column.
\<close>

definition stray_map :: "nat hexmap" where
  "stray_map = \<lparr>rows = 5, cols = 5, valid_cell = in_grid 5 5,
     positions = [((0, 0), 0), ((0, 1), 1), ((3, 2), 2)]\<rparr>"

definition stray_render :: "nat Render" where
  "stray_render = \<lparr>self_map = stray_map, radius = 32, colorkey = None,
     buffer = (\<lambda>_. (0, 0, 0, 255))\<rparr>"

section \<open>Properties of the hit test\<close>

lemma SQRT3_pos: "0 < SQRT3"
  by (simp add: SQRT3_def)

lemma resolve_even_centre:
  assumes "\<lfloor>x / (1.5 * r)\<rfloor> = col" and "\<lfloor>y / (SQRT3 * r)\<rfloor> = row0"
    and "col mod 2 = 0"
    and "y - of_int row0 * SQRT3 * r = SQRT3 * r / 2"
  shows "get_cell_resolve r (x, y) = (row0 + \<lfloor>(of_int col + 1) / (2 :: real)\<rfloor>, col)"
  unfolding get_cell_resolve_def prod.case Let_def assms by simp

lemma resolve_odd_top:
  assumes "\<lfloor>x / (1.5 * r)\<rfloor> = col" and "\<lfloor>y / (SQRT3 * r)\<rfloor> = row0"
    and "col mod 2 = 1"
    and "x - of_int col * 1.5 * r = r"
    and "y - of_int row0 * SQRT3 * r = 0"
    and "0 < r"
  shows "get_cell_resolve r (x, y) = (row0 + \<lfloor>(of_int col + 1) / (2 :: real)\<rfloor> - 1, col)"
  unfolding get_cell_resolve_def prod.case Let_def assms using \<open>0 < r\<close> SQRT3_pos by simp

lemma floor_centre_col:
  assumes "0 < (r::real)"
  shows "\<lfloor>(1.5 * r * of_int col + 2 * r / 2) / (1.5 * r)\<rfloor> = col"
proof -
  have "(1.5 * r * of_int col + 2 * r / 2) / (1.5 * r) = of_int col + 2 / 3"
    using assms by (simp add: field_simps)
  then show ?thesis by (simp add: floor_unique)
qed

text \<open>
  The centre of a cell's rectangle lies two thirds into its column bucket. In an even
  column it is half a hex height below a bucket line, and neither boundary test fires; in
  an odd column it is on a bucket line, where the second test of the odd branch moves the
  row back by one.
\<close>

lemma resolve_centre:
  assumes "0 < radius self"
  shows "get_cell_resolve (radius self) (rect_center (get_surface_rect self (row, col))) = (row, col)"
proof -
  define r where "r = radius self"
  define h where "h = SQRT3 * r"
  have r: "0 < r" using assms by (simp add: r_def)
  have h: "0 < h" using r SQRT3_pos by (simp add: h_def)
  define x where "x = 1.5 * r * of_int col + 2 * r / 2"
  define y where "y = (of_int row - of_int \<lceil>of_int col / (2 :: real)\<rceil>) * (r * SQRT3) +
               (if col mod 2 = 1 then r * SQRT3 / 2 else 0) + r * SQRT3 / 2"
  have centre: "rect_center (get_surface_rect self (row, col)) = (x, y)"
    by (simp add: rect_center_def get_surface_rect_def Let_def x_def y_def r_def)
  have fx: "\<lfloor>x / (1.5 * r)\<rfloor> = col"
    unfolding x_def using r by (rule floor_centre_col)
  show ?thesis
  proof (cases "col mod 2 = 0")
    case True
    then obtain k where k: "col = 2 * k" by (auto simp: mod_eq_0_iff_dvd)
    have ceil: "\<lceil>of_int col / (2 :: real)\<rceil> = k" by (simp add: k)
    have yv: "y = (of_int (row - k) + 1 / 2) * h"
      using True by (simp add: y_def ceil h_def algebra_simps)
    have "y / h = of_int (row - k) + 1 / 2" using h by (simp add: yv)
    then have fy: "\<lfloor>y / (SQRT3 * r)\<rfloor> = row - k"
      unfolding h_def by (simp add: floor_unique)
    have ly: "y - of_int (row - k) * SQRT3 * r = SQRT3 * r / 2"
      by (simp add: yv h_def algebra_simps)
    have "\<lfloor>(of_int col + 1) / (2 :: real)\<rfloor> = k"
      by (simp add: k floor_unique add_divide_distrib)
    with resolve_even_centre [OF fx fy True ly] show ?thesis
      by (simp add: centre r_def [symmetric])
  next
    case False
    then obtain k where k: "col = 2 * k + 1" by (metis dvd_eq_mod_eq_0 oddE)
    have m: "col mod 2 = 1" using False by presburger
    have ceil: "\<lceil>of_int col / (2 :: real)\<rceil> = k + 1"
      by (rule ceiling_unique) (simp_all add: k add_divide_distrib)
    have yv: "y = of_int (row - k) * h"
      using m by (simp add: y_def ceil h_def algebra_simps)
    have "y / h = of_int (row - k)" using h by (simp add: yv)
    then have fy: "\<lfloor>y / (SQRT3 * r)\<rfloor> = row - k"
      unfolding h_def by simp
    have ly: "y - of_int (row - k) * SQRT3 * r = 0"
      by (simp add: yv h_def algebra_simps)
    have lx: "x - of_int col * 1.5 * r = r"
      by (simp add: x_def algebra_simps)
    have "\<lfloor>(of_int col + 1) / (2 :: real)\<rfloor> = k + 1"
      by (rule floor_unique) (simp_all add: k add_divide_distrib)
    with resolve_odd_top [OF fx fy m lx ly r] show ?thesis
      by (simp add: centre r_def [symmetric])
  qed
qed

text \<open>
  C1: for every cell that the map's \<open>valid_cell\<close> accepts and every radius \<open>r > 0\<close>,
  \<open>get_cell\<close> at the centre of the rectangle that \<open>get_surface_rect\<close> computes for the cell
  returns that cell.
\<close>

theorem get_cell_centre_roundtrip:
  assumes "0 < radius self" and "valid_cell (self_map self) (row, col)"
  shows "get_cell self (rect_center (get_surface_rect self (row, col))) = Inr (Some (row, col))"
  using assms by (simp add: get_cell_def Let_def resolve_centre)

theorem get_cell_centre_roundtrip_witness:
  "0 < radius demo_render \<and> valid_cell (self_map demo_render) (3, 2) \<and>
   get_cell demo_render (rect_center (get_surface_rect demo_render (3, 2))) = Inr (Some (3, 2))"
proof -
  have r: "0 < radius demo_render" by (simp add: demo_render_def)
  have v: "valid_cell (self_map demo_render) (3, 2)"
    by (simp add: demo_render_def demo_map_def in_grid_def)
  from r v get_cell_centre_roundtrip [OF r v] show ?thesis by simp
qed

text \<open>
  C2: for every pixel and radius, the cell \<open>get_cell\<close> resolves is the one the documented
  algorithm \<open>PixelToCell\<close> gives, and for \<open>r > 0\<close> the result of \<open>get_cell\<close> is that
  cell filtered by \<open>valid_cell\<close>.
\<close>

theorem get_cell_refines_PixelToCell:
  "get_cell_resolve r (x, y) = PixelToCell x y r \<and>
   (get_cell self (x, y) =
      (if radius self = 0 then Inl ZeroDivisionError
       else Inr (if valid_cell (self_map self) (PixelToCell x y (radius self))
                 then Some (PixelToCell x y (radius self)) else None)))"
proof -
  have eq: "get_cell_resolve q (x, y) = PixelToCell x y q" for q
    unfolding get_cell_resolve_def PixelToCell_def SQRT3_def even_iff_mod_2_eq_zero prod.case
    by (rule refl)
  show ?thesis by (simp add: get_cell_def Let_def eq)
qed

text \<open>
  C4: for every pixel and every radius \<open>r > 0\<close>, \<open>get_cell\<close> raises no error: it returns
  the resolved cell exactly when the map's \<open>valid_cell\<close> accepts it, and \<open>None\<close> otherwise.
\<close>

theorem get_cell_total:
  assumes "0 < radius self"
  shows "get_cell self (x, y) =
           Inr (if valid_cell (self_map self) (get_cell_resolve (radius self) (x, y))
                then Some (get_cell_resolve (radius self) (x, y)) else None)"
  using assms by (simp add: get_cell_def Let_def)

theorem get_cell_total_witness:
  "0 < radius demo_render \<and> get_cell demo_render (40, 500) =
     Inr (if valid_cell (self_map demo_render) (get_cell_resolve (radius demo_render) (40, 500))
          then Some (get_cell_resolve (radius demo_render) (40, 500)) else None)"
proof -
  have r: "0 < radius demo_render" by (simp add: demo_render_def)
  from r get_cell_total [OF r, of 40 500] show ?thesis by simp
qed

text \<open>
  C10: the cell resolved before the validity check is the coarse bucket \<open>(row1, col0)\<close>
  or its neighbour one column to the left, one row up, or both: never a column to the
  right, never a row below.
\<close>

theorem get_cell_resolve_near_bucket:
  "get_cell_resolve r (x, y) \<in>
     (let col0 = \<lfloor>x / (1.5 * r)\<rfloor>;
          row1 = \<lfloor>y / (sqrt 3 * r)\<rfloor> + \<lfloor>(of_int col0 + 1) / (2 :: real)\<rfloor>
      in {(row1, col0), (row1 - 1, col0 - 1), (row1, col0 - 1), (row1 - 1, col0)})"
  unfolding get_cell_resolve_def SQRT3_def Let_def prod.case
  by (simp only: insert_iff split: if_split) blast

section \<open>Cell rectangles and the canvas\<close>

lemma ceiling_half_cases:
  fixes c :: int
  obtains k where "c = 2 * k" "\<lceil>of_int c / (2 :: real)\<rceil> = k" "\<lfloor>of_int c / (2 :: real)\<rfloor> = k" "c mod 2 = 0"
  | k where "c = 2 * k + 1" "\<lceil>of_int c / (2 :: real)\<rceil> = k + 1" "\<lfloor>of_int c / (2 :: real)\<rfloor> = k" "c mod 2 = 1"
proof (cases "even c")
  case True
  then obtain k where k: "c = 2 * k" by (rule evenE)
  have a: "\<lceil>of_int c / (2 :: real)\<rceil> = k" by (simp add: k)
  have b: "\<lfloor>of_int c / (2 :: real)\<rfloor> = k" by (simp add: k)
  have m: "c mod 2 = 0" by (simp add: k)
  show ?thesis by (rule that(1) [OF k a b m])
next
  case False
  then obtain k where k: "c = 2 * k + 1" by (rule oddE)
  have a: "\<lceil>of_int c / (2 :: real)\<rceil> = k + 1"
    by (rule ceiling_unique) (simp_all add: k add_divide_distrib)
  have b: "\<lfloor>of_int c / (2 :: real)\<rfloor> = k"
    by (rule floor_unique) (simp_all add: k add_divide_distrib)
  have m: "c mod 2 = 1" using False by presburger
  show ?thesis by (rule that(2) [OF k a b m])
qed

lemma width_odd:
  assumes "odd (cols (self_map self))"
  shows "Render_width self = 3 / 2 * (radius self * of_int (cols (self_map self))) + radius self / 2 + 1"
proof (rule ceiling_half_cases [of "cols (self_map self)"])
  fix j assume "cols (self_map self) = 2 * j"
  with assms show ?thesis by simp
next
  fix j assume j: "cols (self_map self) = 2 * j + 1"
    "\<lceil>of_int (cols (self_map self)) / (2 :: real)\<rceil> = j + 1"
    "\<lfloor>of_int (cols (self_map self)) / (2 :: real)\<rfloor> = j"
  show ?thesis unfolding Render_width_def j(2,3) by (simp add: j(1) field_simps)
qed

lemma width_even:
  assumes "even (cols (self_map self))"
  shows "Render_width self = 3 / 2 * (radius self * of_int (cols (self_map self))) + 1"
proof (rule ceiling_half_cases [of "cols (self_map self)"])
  fix j assume j: "cols (self_map self) = 2 * j"
      "\<lceil>of_int (cols (self_map self)) / (2 :: real)\<rceil> = j"
      "\<lfloor>of_int (cols (self_map self)) / (2 :: real)\<rfloor> = j"
  show ?thesis unfolding Render_width_def j(2,3) by (simp add: j(1) field_simps)
next
  fix j assume "cols (self_map self) = 2 * j + 1"
  with assms show ?thesis by simp
qed

lemma surface_left: "rect_left (get_surface_rect self (row, col)) = 3 / 2 * (radius self * of_int col)"
  by (simp add: get_surface_rect_def Let_def)

lemma surface_width: "rect_width (get_surface_rect self (row, col)) = 2 * radius self"
  by (simp add: get_surface_rect_def Let_def)

lemma surface_height: "rect_height (get_surface_rect self (row, col)) = radius self * SQRT3"
  by (simp add: get_surface_rect_def Let_def)

lemma surface_top:
  "rect_top (get_surface_rect self (row, col)) =
     of_int (row - \<lceil>of_int col / (2 :: real)\<rceil>) * (radius self * SQRT3) +
     (if col mod 2 = 1 then radius self * SQRT3 / 2 else 0)"
  by (simp add: get_surface_rect_def Let_def)

lemma right_edge:
  assumes r: "0 < radius self" and col: "col < cols (self_map self)"
    and ok: "odd (cols (self_map self)) \<or> col < cols (self_map self) - 1"
  shows "rect_left (get_surface_rect self (row, col)) + rect_width (get_surface_rect self (row, col))
           \<le> Render_width self - 1"
proof (cases "odd (cols (self_map self))")
  case True
  have "of_int col \<le> (of_int (cols (self_map self)) - 1 :: real)" using col by linarith
  then have "radius self * of_int col \<le> radius self * (of_int (cols (self_map self)) - 1)"
    using r by (rule_tac mult_left_mono) simp_all
  then have "radius self * of_int col \<le> radius self * of_int (cols (self_map self)) - radius self"
    by (simp only: right_diff_distrib mult_1_right)
  then show ?thesis unfolding surface_left surface_width width_odd [OF True] by linarith
next
  case False
  with ok have "of_int col \<le> (of_int (cols (self_map self)) - 2 :: real)" by linarith
  then have "radius self * of_int col \<le> radius self * (of_int (cols (self_map self)) - 2)"
    using r by (rule_tac mult_left_mono) simp_all
  then have "radius self * of_int col \<le> radius self * of_int (cols (self_map self)) - 2 * radius self"
    by (simp only: right_diff_distrib mult.commute [of _ 2])
  moreover have "even (cols (self_map self))" using False by simp
  ultimately show ?thesis using r unfolding surface_left surface_width width_even [OF \<open>even (cols (self_map self))\<close>]
    by linarith
qed

lemma top_edge:
  assumes r: "0 < radius self" and row: "\<lceil>of_int col / (2 :: real)\<rceil> \<le> row"
  shows "0 \<le> rect_top (get_surface_rect self (row, col))"
proof -
  have "(0 :: real) \<le> of_int (row - \<lceil>of_int col / (2 :: real)\<rceil>)" using row by simp
  moreover have h: "0 < radius self * SQRT3" using r SQRT3_pos by simp
  ultimately have "0 \<le> of_int (row - \<lceil>of_int col / (2 :: real)\<rceil>) * (radius self * SQRT3)"
    by (simp only: mult_nonneg_nonneg less_imp_le)
  moreover have "0 \<le> (if col mod 2 = 1 then radius self * SQRT3 / 2 else 0)" using h by simp
  ultimately show ?thesis unfolding surface_top by linarith
qed

lemma bottom_edge:
  assumes r: "0 < radius self"
    and row: "row < \<lceil>of_int col / (2 :: real)\<rceil> + rows (self_map self)"
  shows "rect_top (get_surface_rect self (row, col)) + rect_height (get_surface_rect self (row, col))
           \<le> Render_height self - 1"
proof -
  define h where "h = radius self * SQRT3"
  define d where "d = row - \<lceil>of_int col / (2 :: real)\<rceil>"
  have h: "0 < h" using r SQRT3_pos by (simp add: h_def)
  have "d \<le> rows (self_map self) - 1" using row by (simp add: d_def)
  then have "(of_int d :: real) \<le> of_int (rows (self_map self)) - 1" by linarith
  then have "of_int d * h \<le> (of_int (rows (self_map self)) - 1) * h"
    using h by (rule_tac mult_right_mono) simp_all
  then have "of_int d * h \<le> of_int (rows (self_map self)) * h - h"
    by (simp only: left_diff_distrib mult_1)
  moreover have "(if col mod 2 = 1 then h / 2 else 0) \<le> h / 2" using h by simp
  moreover have "Render_height self = of_int (rows (self_map self)) * h + h / 2 + 1"
    by (simp add: Render_height_def h_def algebra_simps)
  ultimately show ?thesis
    unfolding surface_top surface_height h_def [symmetric] d_def [symmetric] by linarith
qed


text \<open>
  With an even number of columns the width formula stops half a radius short of the
  right edge of the last column's rectangle.
\<close>

lemma last_column_overhang:
  assumes "even (cols (self_map self))"
  shows "rect_left (get_surface_rect self (row, cols (self_map self) - 1)) +
         rect_width (get_surface_rect self (row, cols (self_map self) - 1)) =
         Render_width self - 1 + radius self / 2"
  unfolding surface_left surface_width width_even [OF assms]
  by (simp add: algebra_simps)

text \<open>
  C3, as amended: for every radius \<open>r > 0\<close> and every cell \<open>(row, col)\<close> with
  \<open>0 \<le> col < cols\<close> and \<open>ceil(col/2) \<le> row < ceil(col/2) + rows\<close>, the rectangle of
  \<open>get_surface_rect\<close> has its left and top edges at or after 0 and its bottom edge within the
  canvas height, and it lies fully inside the canvas when \<open>cols\<close> is odd or the cell is
  not in the last column. For \<open>rows \<ge> 1\<close> and \<open>cols \<ge> 1\<close> the bottom edge of the
  rectangle of cell \<open>(rows - 1, cols - 1)\<close> is within the canvas height, and its right edge
  is within the canvas width when \<open>cols\<close> is odd.
\<close>

theorem get_surface_inside_canvas:
  assumes r: "0 < radius self"
  shows "(0 \<le> col \<and> col < cols (self_map self) \<and>
          \<lceil>of_int col / (2 :: real)\<rceil> \<le> row \<and>
          row < \<lceil>of_int col / (2 :: real)\<rceil> + rows (self_map self) \<longrightarrow>
            0 \<le> rect_left (get_surface_rect self (row, col)) \<and>
            0 \<le> rect_top (get_surface_rect self (row, col)) \<and>
            rect_top (get_surface_rect self (row, col)) + rect_height (get_surface_rect self (row, col))
              \<le> Render_height self \<and>
            (odd (cols (self_map self)) \<or> col < cols (self_map self) - 1 \<longrightarrow>
               rect_inside (get_surface_rect self (row, col)) (Render_width self) (Render_height self))) \<and>
         (1 \<le> rows (self_map self) \<and> 1 \<le> cols (self_map self) \<longrightarrow>
            rect_top (get_surface_rect self (rows (self_map self) - 1, cols (self_map self) - 1)) +
            rect_height (get_surface_rect self (rows (self_map self) - 1, cols (self_map self) - 1))
              \<le> Render_height self \<and>
            (odd (cols (self_map self)) \<longrightarrow>
               rect_left (get_surface_rect self (rows (self_map self) - 1, cols (self_map self) - 1)) +
               rect_width (get_surface_rect self (rows (self_map self) - 1, cols (self_map self) - 1))
                 \<le> Render_width self))"
proof (intro conjI impI)
  assume a: "0 \<le> col \<and> col < cols (self_map self) \<and>
          \<lceil>of_int col / (2 :: real)\<rceil> \<le> row \<and>
          row < \<lceil>of_int col / (2 :: real)\<rceil> + rows (self_map self)"
  have "(0 :: real) \<le> of_int col" using a by simp
  then have "0 \<le> radius self * of_int col" using r by simp
  then show l: "0 \<le> rect_left (get_surface_rect self (row, col))"
    unfolding surface_left by linarith
  show t: "0 \<le> rect_top (get_surface_rect self (row, col))"
    using r a by (simp add: top_edge)
  show b: "rect_top (get_surface_rect self (row, col)) + rect_height (get_surface_rect self (row, col))
              \<le> Render_height self"
    using bottom_edge [OF r, of row col] a by linarith
  assume "odd (cols (self_map self)) \<or> col < cols (self_map self) - 1"
  with right_edge [OF r, of col row] a
  have "rect_left (get_surface_rect self (row, col)) + rect_width (get_surface_rect self (row, col))
           \<le> Render_width self" by linarith
  with l t b show "rect_inside (get_surface_rect self (row, col)) (Render_width self) (Render_height self)"
    by (simp add: rect_inside_def)
next
  assume a: "1 \<le> rows (self_map self) \<and> 1 \<le> cols (self_map self)"
  have "(0 :: real) \<le> of_int (cols (self_map self) - 1) / 2" using a by simp
  then have "0 \<le> \<lceil>of_int (cols (self_map self) - 1) / (2 :: real)\<rceil>" by linarith
  then have "rows (self_map self) - 1
      < \<lceil>of_int (cols (self_map self) - 1) / (2 :: real)\<rceil> + rows (self_map self)" by linarith
  from bottom_edge [OF r this]
  show "rect_top (get_surface_rect self (rows (self_map self) - 1, cols (self_map self) - 1)) +
            rect_height (get_surface_rect self (rows (self_map self) - 1, cols (self_map self) - 1))
              \<le> Render_height self" by linarith
  assume "odd (cols (self_map self))"
  with right_edge [OF r, of "cols (self_map self) - 1" "rows (self_map self) - 1"]
  show "rect_left (get_surface_rect self (rows (self_map self) - 1, cols (self_map self) - 1)) +
               rect_width (get_surface_rect self (rows (self_map self) - 1, cols (self_map self) - 1))
                 \<le> Render_width self" by simp
qed

lemma demo_fields:
  "radius demo_render = 32" "rows (self_map demo_render) = 5" "cols (self_map demo_render) = 5"
  "valid_cell (self_map demo_render) = in_grid 5 5"
  by (simp_all add: demo_render_def demo_map_def)

theorem get_surface_inside_canvas_witness:
  "0 < radius demo_render \<and>
   rect_inside (get_surface_rect demo_render (3, 2)) (Render_width demo_render) (Render_height demo_render) \<and>
   rect_top (get_surface_rect demo_render (4, 4)) + rect_height (get_surface_rect demo_render (4, 4))
     \<le> Render_height demo_render \<and>
   rect_left (get_surface_rect demo_render (4, 4)) + rect_width (get_surface_rect demo_render (4, 4))
     \<le> Render_width demo_render"
proof -
  have r: "0 < radius demo_render" by (simp add: demo_fields)
  from r get_surface_inside_canvas [OF r, of 2 3] show ?thesis
    by (simp add: demo_fields)
qed

text \<open>
  C3, as stated, fails: on the five by five map at radius 32, with the cells of the
  rectangle \<open>[0, rows) \<times> [0, cols)\<close> valid, the rectangle of the valid cell \<open>(0, 1)\<close>
  starts above the canvas, at \<open>top = - 16 \<surd>3\<close>.
\<close>

theorem get_surface_outside_canvas:
  "0 < radius demo_render \<and> 1 \<le> rows (self_map demo_render) \<and>
   1 \<le> cols (self_map demo_render) \<and> valid_cell (self_map demo_render) (0, 1) \<and>
   \<not> rect_inside (get_surface_rect demo_render (0, 1))
        (Render_width demo_render) (Render_height demo_render)"
proof -
  have c: "\<lceil>1 / (2 :: real)\<rceil> = 1" by (rule ceiling_unique) simp_all
  have "rect_top (get_surface_rect demo_render (0, 1)) = - (16 * SQRT3)"
    unfolding surface_top by (simp add: demo_fields c)
  then have "rect_top (get_surface_rect demo_render (0, 1)) < 0" using SQRT3_pos by simp
  then show ?thesis by (simp add: rect_inside_def demo_fields in_grid_def)
qed


section \<open>Canvas dimensions\<close>

lemma sqrt3_lower: "(17320508 / 10000000 :: real) < sqrt 3"
  by (rule real_less_rsqrt) (simp add: power2_eq_square)

lemma sqrt3_upper: "sqrt 3 < (17320509 / 10000000 :: real)"
  by (rule real_less_lsqrt) (simp_all add: power2_eq_square)

text \<open>
  C5: the width is \<open>ceil(cols/2) \<cdot> 2 \<cdot> radius + floor(cols/2) \<cdot> radius + 1\<close> and the height
  is \<open>(rows + 0.5) \<cdot> radius \<cdot> \<surd>3 + 1\<close>; for five rows, five columns and radius 32 the
  width is 257 and the height is \<open>176 \<surd>3 + 1\<close>, which is within \<open>1/10000\<close> of
  \<open>5.5 \<cdot> 32 \<cdot> 1.7320508 + 1\<close> and lies between 305.8 and 305.9.
\<close>

theorem canvas_dimensions:
  "Render_width self =
     of_int \<lceil>of_int (cols (self_map self)) / (2 :: real)\<rceil> * 2 * radius self +
     of_int \<lfloor>of_int (cols (self_map self)) / (2 :: real)\<rfloor> * radius self + 1 \<and>
   Render_height self = (of_int (rows (self_map self)) + 0.5) * radius self * sqrt 3 + 1 \<and>
   (rows (self_map self) = 5 \<and> cols (self_map self) = 5 \<and> radius self = 32 \<longrightarrow>
      Render_width self = 257 \<and>
      Render_height self = 176 * sqrt 3 + 1 \<and>
      \<bar>Render_height self - (5.5 * 32 * 1.7320508 + 1)\<bar> < 1 / 10 ^ 4 \<and>
      305.8 < Render_height self \<and> Render_height self < 305.9)"
proof (intro conjI impI)
  show "Render_width self =
     of_int \<lceil>of_int (cols (self_map self)) / (2 :: real)\<rceil> * 2 * radius self +
     of_int \<lfloor>of_int (cols (self_map self)) / (2 :: real)\<rfloor> * radius self + 1"
    by (simp add: Render_width_def)
  show "Render_height self = (of_int (rows (self_map self)) + 0.5) * radius self * sqrt 3 + 1"
    by (simp add: Render_height_def SQRT3_def)
next
  assume a: "rows (self_map self) = 5 \<and> cols (self_map self) = 5 \<and> radius self = 32"
  have c: "\<lceil>5 / (2 :: real)\<rceil> = 3" by (rule ceiling_unique) simp_all
  have f: "\<lfloor>5 / (2 :: real)\<rfloor> = 2" by (rule floor_unique) simp_all
  show "Render_width self = 257" by (simp add: Render_width_def a c f)
  show hh: "Render_height self = 176 * sqrt 3 + 1"
    by (simp add: Render_height_def a SQRT3_def)
  show "\<bar>Render_height self - (5.5 * 32 * 1.7320508 + 1)\<bar> < 1 / 10 ^ 4"
    using sqrt3_lower sqrt3_upper unfolding hh by (simp add: abs_less_iff)
  show "305.8 < Render_height self"
    using sqrt3_lower unfolding hh by simp
  show "Render_height self < 305.9"
    using sqrt3_upper unfolding hh by simp
qed

theorem canvas_dimensions_witness:
  "Render_width demo_render = 257 \<and>
   Render_height demo_render = 176 * sqrt 3 + 1 \<and>
   \<bar>Render_height demo_render - (5.5 * 32 * 1.7320508 + 1)\<bar> < 1 / 10 ^ 4 \<and>
   305.8 < Render_height demo_render \<and> Render_height demo_render < 305.9"
proof -
  have a: "rows (self_map demo_render) = 5 \<and> cols (self_map demo_render) = 5 \<and>
           radius demo_render = 32"
    by (simp add: demo_fields)
  from canvas_dimensions [of demo_render] a show ?thesis by blast
qed

section \<open>The click at the origin\<close>

text \<open>
  C6: at radius 32 on a five by five map whose \<open>valid_cell\<close> rejects negative
  coordinates, the pixel \<open>(0, 0)\<close> is in the even column bucket 0 with local offsets 0,
  the three tests of the upper-left branch hold, the resolved cell is \<open>(-1, -1)\<close>, and
  \<open>get_cell\<close> returns \<open>None\<close>.
\<close>

theorem get_cell_origin:
  assumes "radius self = 32"
    and "rows (self_map self) = 5" and "cols (self_map self) = 5"
    and "\<forall>row col. row < 0 \<or> col < 0 \<longrightarrow> \<not> valid_cell (self_map self) (row, col)"
  shows "\<lfloor>0 / (1.5 * radius self)\<rfloor> mod 2 = (0 :: int) \<and>
         (0 :: real) < SQRT3 * radius self / 2 \<and> (0 :: real) < 0.5 * radius self \<and>
         (0 :: real) < SQRT3 * radius self / 2 - 0 \<and>
         get_cell_resolve (radius self) (0, 0) = (-1, -1) \<and>
         get_cell self (0, 0) = Inr None"
proof -
  have res: "get_cell_resolve 32 (0, 0) = (-1, -1)"
    using SQRT3_pos by (simp add: get_cell_resolve_def Let_def)
  have "\<not> valid_cell (self_map self) (-1, -1)" using assms(4) by simp
  then have "get_cell self (0, 0) = Inr None"
    by (simp add: get_cell_def Let_def res assms(1))
  with res SQRT3_pos show ?thesis by (simp add: assms(1))
qed

theorem get_cell_origin_witness:
  "radius demo_render = 32 \<and> rows (self_map demo_render) = 5 \<and>
   cols (self_map demo_render) = 5 \<and>
   \<not> valid_cell (self_map demo_render) (-1, -1) \<and>
   get_cell_resolve (radius demo_render) (0, 0) = (-1, -1) \<and>
   get_cell demo_render (0, 0) = Inr None"
proof -
  have v: "\<forall>row col. row < 0 \<or> col < 0 \<longrightarrow> \<not> valid_cell (self_map demo_render) (row, col)"
    by (auto simp add: demo_fields in_grid_def)
  from v have "\<not> valid_cell (self_map demo_render) (-1, -1)" by simp
  with get_cell_origin [OF demo_fields(1) demo_fields(2) demo_fields(3) v] show ?thesis
    by (simp add: demo_fields(1,2,3))
qed

section \<open>Properties of the renderers\<close>

lemma hex_cell_at:
  "map (\<lambda>(x, y). (x + l, y + t)) (hex_cell r) = hexagon_corners r l t"
  by (simp add: hex_cell_def hexagon_corners_def SQRT3_def add.commute)

lemma grid_polygon:
  "(let top = (if col mod 2 \<noteq> 0 then r * SQRT3 / 2 else 0) + SQRT3 * of_int row * r;
        left = 1.5 * of_int col * r;
        points = map (\<lambda>(x, y). (x + left, y + top)) (hex_cell r)
    in Polygon GRID_COLOR points 1) =
   Polygon GRID_COLOR
     (hexagon_corners r (1.5 * r * of_int col)
        (sqrt 3 * r * of_int row + (if odd (col :: int) then sqrt 3 * r / 2 else 0))) 1"
proof -
  have "(if col mod 2 \<noteq> 0 then r * SQRT3 / 2 else 0) + SQRT3 * of_int row * r =
        sqrt 3 * r * of_int row + (if odd col then sqrt 3 * r / 2 else 0)"
    by (simp add: SQRT3_def odd_iff_mod_2_eq_one even_iff_mod_2_eq_zero)
  moreover have "1.5 * of_int col * r = 1.5 * r * of_int col" by simp
  ultimately show ?thesis by (simp only: Let_def hex_cell_at)
qed

lemma grid_calls:
  "RenderGrid_draw_calls self =
     Render_draw_calls self @
     concat (map (\<lambda>col. map (\<lambda>row.
         Polygon GRID_COLOR
           (hexagon_corners (radius self) (1.5 * radius self * of_int col)
              (sqrt 3 * radius self * of_int row +
               (if odd col then sqrt 3 * radius self / 2 else 0))) 1)
       [0..rows (self_map self) - 1]) [0..cols (self_map self) - 1])"
  unfolding RenderGrid_draw_calls_def Let_def [of "if _ then _ else _"] grid_polygon py_range_def
  by (rule refl)

lemma hexagon_corners_regular:
  assumes "0 < r"
  shows "regular_hexagon r (l + r, t + sqrt 3 * r / 2) (hexagon_corners r l t)"
proof -
  have s: "0 < sqrt 3 * r" using assms by simp
  have a: "(r / 2)\<^sup>2 + (sqrt 3 * r / 2)\<^sup>2 = r\<^sup>2"
    by (simp add: power2_eq_square field_simps)
  have d: "distinct (hexagon_corners r l t)"
    using assms s by (simp add: hexagon_corners_def)
  have c: "map (sq_dist (l + r, t + sqrt 3 * r / 2)) (hexagon_corners r l t) = replicate 6 (r\<^sup>2)"
    using a by (simp add: hexagon_corners_def sq_dist_def numeral_eq_Suc power2_eq_square field_simps)
  have n: "map2 sq_dist (hexagon_corners r l t) (rotate1 (hexagon_corners r l t)) = replicate 6 (r\<^sup>2)"
    using a by (simp add: hexagon_corners_def sq_dist_def numeral_eq_Suc power2_eq_square field_simps)
  from d c n show ?thesis by (simp add: regular_hexagon_def hexagon_corners_def)
qed

lemma hexagon_corners_box:
  assumes "0 < r"
  shows "bounding_box (hexagon_corners r l t) =
           \<lparr>rect_left = l, rect_top = t, rect_width = 2 * r, rect_height = sqrt 3 * r\<rparr>"
proof -
  have s: "0 < sqrt 3 * r" using assms by simp
  have xs: "set (map fst (hexagon_corners r l t)) = {l + r / 2, l + 3 * r / 2, l + 2 * r, l}"
    by (auto simp add: hexagon_corners_def)
  have ys: "set (map snd (hexagon_corners r l t)) = {t, t + sqrt 3 * r / 2, t + sqrt 3 * r}"
    by (auto simp add: hexagon_corners_def)
  have "Min {l + r / 2, l + 3 * r / 2, l + 2 * r, l} = l"
    using assms by (simp add: min_def)
  moreover have "Max {l + r / 2, l + 3 * r / 2, l + 2 * r, l} = l + 2 * r"
    using assms by (simp add: max_def)
  moreover have "Min {t, t + sqrt 3 * r / 2, t + sqrt 3 * r} = t"
    using assms s by (simp add: min_def)
  moreover have "Max {t, t + sqrt 3 * r / 2, t + sqrt 3 * r} = t + sqrt 3 * r"
    using assms s by (simp add: max_def)
  ultimately show ?thesis unfolding bounding_box_def xs ys by simp
qed

text \<open>
  C7: \<open>RenderGrid.draw\<close> runs its calls on the surface: first those of the base \<open>draw\<close>,
  then, column by column and row by row, for every \<open>(row, col)\<close> with \<open>0 \<le> col < cols\<close>
  and \<open>0 \<le> row < rows\<close> one polygon outline of line width 1 in \<open>GRID_COLOR\<close>, on the corners
  of the hexagon in the box at \<open>left = 1.5 \<cdot> radius \<cdot> col\<close> and \<open>top = \<surd>3 \<cdot> radius \<cdot> row\<close>, plus
  \<open>\<surd>3 \<cdot> radius / 2\<close> exactly when \<open>col\<close> is odd. For a radius above 0 the corners in the
  box at \<open>(l, t)\<close> are a regular hexagon of side \<open>radius\<close>, and their bounding box has its
  top-left corner at \<open>(l, t)\<close>, width \<open>2 \<cdot> radius\<close> and height \<open>\<surd>3 \<cdot> radius\<close>.
\<close>

theorem RenderGrid_draw_outlines:
  "RenderGrid_draw be self = foldl (exec be) self (RenderGrid_draw_calls self) \<and>
   take (length (Render_draw_calls self)) (RenderGrid_draw_calls self) = Render_draw_calls self \<and>
   drop (length (Render_draw_calls self)) (RenderGrid_draw_calls self) =
     concat (map (\<lambda>col. map (\<lambda>row.
         Polygon GRID_COLOR
           (hexagon_corners (radius self) (1.5 * radius self * of_int col)
              (sqrt 3 * radius self * of_int row +
               (if odd col then sqrt 3 * radius self / 2 else 0))) 1)
       [0..rows (self_map self) - 1]) [0..cols (self_map self) - 1]) \<and>
   (0 < radius self \<longrightarrow>
      regular_hexagon (radius self) (l + radius self, t + sqrt 3 * radius self / 2)
        (hexagon_corners (radius self) l t) \<and>
      bounding_box (hexagon_corners (radius self) l t) =
        \<lparr>rect_left = l, rect_top = t, rect_width = 2 * radius self,
         rect_height = sqrt 3 * radius self\<rparr>)"
proof (intro conjI impI)
  show "RenderGrid_draw be self = foldl (exec be) self (RenderGrid_draw_calls self)"
    by (simp add: RenderGrid_draw_def)
  show "take (length (Render_draw_calls self)) (RenderGrid_draw_calls self) = Render_draw_calls self"
    unfolding grid_calls by simp
  show "drop (length (Render_draw_calls self)) (RenderGrid_draw_calls self) =
     concat (map (\<lambda>col. map (\<lambda>row.
         Polygon GRID_COLOR
           (hexagon_corners (radius self) (1.5 * radius self * of_int col)
              (sqrt 3 * radius self * of_int row +
               (if odd col then sqrt 3 * radius self / 2 else 0))) 1)
       [0..rows (self_map self) - 1]) [0..cols (self_map self) - 1])"
    unfolding grid_calls by simp
next
  assume r: "0 < radius self"
  show "regular_hexagon (radius self) (l + radius self, t + sqrt 3 * radius self / 2)
        (hexagon_corners (radius self) l t)"
    using r by (rule hexagon_corners_regular)
  show "bounding_box (hexagon_corners (radius self) l t) =
        \<lparr>rect_left = l, rect_top = t, rect_width = 2 * radius self,
         rect_height = sqrt 3 * radius self\<rparr>"
    using r by (rule hexagon_corners_box)
qed

theorem RenderGrid_draw_outlines_witness:
  "0 < radius demo_render \<and>
   regular_hexagon (radius demo_render) (96 + radius demo_render, 0 + sqrt 3 * radius demo_render / 2)
     (hexagon_corners (radius demo_render) 96 0) \<and>
   bounding_box (hexagon_corners (radius demo_render) 96 0) =
     \<lparr>rect_left = 96, rect_top = 0, rect_width = 2 * radius demo_render,
      rect_height = sqrt 3 * radius demo_render\<rparr>"
proof -
  have r: "0 < radius demo_render" by (simp add: demo_render_def)
  from r RenderGrid_draw_outlines [where self = demo_render and l = 96 and t = 0]
  show ?thesis by blast
qed

lemma get_surface_rect_inj:
  assumes r: "radius self \<noteq> 0" and eq: "get_surface_rect self c = get_surface_rect self c'"
  shows "c = c'"
proof -
  obtain row col where c: "c = (row, col)" by (cases c)
  obtain row' col' where c': "c' = (row', col')" by (cases c')
  have h: "radius self * SQRT3 \<noteq> 0" using r SQRT3_pos by simp
  from eq have "rect_left (get_surface_rect self (row, col)) = rect_left (get_surface_rect self (row', col'))"
    by (simp add: c c')
  then have col: "col = col'" using r unfolding surface_left by simp
  from eq have "rect_top (get_surface_rect self (row, col)) = rect_top (get_surface_rect self (row', col))"
    by (simp add: c c' col)
  then have "of_int (row - \<lceil>of_int col / (2 :: real)\<rceil>) * (radius self * SQRT3) =
             of_int (row' - \<lceil>of_int col / (2 :: real)\<rceil>) * (radius self * SQRT3)"
    unfolding surface_top by linarith
  then have "(of_int (row - \<lceil>of_int col / (2 :: real)\<rceil>) :: real) =
             of_int (row' - \<lceil>of_int col / (2 :: real)\<rceil>)"
    using h by (simp only: mult_cancel_right) simp
  then have "row = row'" by linarith
  with col show ?thesis by (simp add: c c')
qed

lemma count_paint_once:
  assumes r: "radius self \<noteq> 0" and d: "distinct (map fst ps)" and m: "(position, unit) \<in> set ps"
  shows "count_list (map (\<lambda>(position, unit). Paint unit (get_surface_rect self position)) ps)
           (Paint unit (get_surface_rect self position)) = 1"
  using d m
proof (induction ps)
  case Nil
  then show ?case by simp
next
  case (Cons a ps)
  obtain p u where a: "a = (p, u)" by (cases a)
  show ?case
  proof (cases "(position, unit) = a")
    case True
    have "count_list (map (\<lambda>(position, unit). Paint unit (get_surface_rect self position)) ps)
            (Paint unit (get_surface_rect self position)) = 0"
    proof (rule ccontr)
      assume "\<not> ?thesis"
      then have "Paint unit (get_surface_rect self position)
                   \<in> set (map (\<lambda>(position, unit). Paint unit (get_surface_rect self position)) ps)"
        by (simp add: count_list_0_iff)
      then obtain q v where qv: "(q, v) \<in> set ps"
          "get_surface_rect self q = get_surface_rect self position"
        by auto
      from get_surface_rect_inj [OF r qv(2)] have "q = position" .
      with qv(1) have "position \<in> fst ` set ps" by force
      with Cons.prems(1) True a show False by simp
    qed
    with True a show ?thesis by simp
  next
    case False
    with Cons.prems have mem: "(position, unit) \<in> set ps" and dist: "distinct (map fst ps)"
      by simp_all
    have "p \<noteq> position"
    proof
      assume "p = position"
      with mem have "p \<in> fst ` set ps" by force
      with Cons.prems(1) a show False by simp
    qed
    then have "get_surface_rect self p \<noteq> get_surface_rect self position"
      using get_surface_rect_inj [OF r] by blast
    with Cons.IH [OF dist mem] a show ?thesis by simp
  qed
qed

lemma count_list_base_paint: "count_list (Render_draw_calls self) (Paint unit rc) = 0"
  by (simp add: Render_draw_calls_def split: option.split)

lemma loop_all_inside:
  assumes "\<forall>(p, u) \<in> set ps.
             rect_inside (get_surface_rect self p) (Render_width self) (Render_height self)"
  shows "RenderUnits_loop self ps =
           (map (\<lambda>(position, unit). Paint unit (get_surface_rect self position)) ps, None)"
  using assms
proof (induction ps)
  case Nil
  then show ?case by simp
next
  case (Cons a ps)
  obtain p u where a: "a = (p, u)" by (cases a)
  from Cons.prems a
  have here: "rect_inside (get_surface_rect self p) (Render_width self) (Render_height self)"
    and rest: "\<forall>(p, u) \<in> set ps.
             rect_inside (get_surface_rect self p) (Render_width self) (Render_height self)"
    by simp_all
  from here have "get_surface self p = Inr (get_surface_rect self p)"
    by (simp add: get_surface_def)
  with Cons.IH [OF rest] show ?case by (simp add: a)
qed

lemma loop_stops:
  assumes "\<not> rect_inside (get_surface_rect self p) (Render_width self) (Render_height self)"
  shows "RenderUnits_loop self ((p, u) # ps) = ([], Some ValueError)"
  using assms by (simp add: get_surface_def)

lemma loop_goes_on:
  assumes "rect_inside (get_surface_rect self p) (Render_width self) (Render_height self)"
  shows "RenderUnits_loop self ((p, u) # ps) =
           (Paint u (get_surface_rect self p) # fst (RenderUnits_loop self ps),
            snd (RenderUnits_loop self ps))"
  using assms by (simp add: get_surface_def split: prod.split)

text \<open>
  C8, as amended: when the rectangle of every item of \<open>positions\<close> lies inside the
  surface, \<open>RenderUnits.draw\<close> raises nothing and runs its list of calls on the surface; the
  list starts with the calls of the base \<open>draw\<close>, and the calls after them are, as a
  multiset (so whatever the order of iteration), one \<open>paint\<close> of the unit on the rectangle
  of \<open>get_surface\<close> for each item of \<open>positions\<close>, and nothing else. With distinct keys
  and a radius other than 0, the call for an item occurs exactly once in the whole list.
\<close>

theorem RenderUnits_draw_paints:
  assumes "\<forall>(p, u) \<in> set (positions (self_map self)).
             rect_inside (get_surface_rect self p) (Render_width self) (Render_height self)"
  shows "RenderUnits_draw_raises self = None \<and>
   RenderUnits_draw be self = foldl (exec be) self (RenderUnits_draw_calls self) \<and>
   take (length (Render_draw_calls self)) (RenderUnits_draw_calls self) = Render_draw_calls self \<and>
   mset (drop (length (Render_draw_calls self)) (RenderUnits_draw_calls self)) =
     image_mset (\<lambda>(position, unit). Paint unit (get_surface_rect self position))
       (mset (positions (self_map self))) \<and>
   (radius self \<noteq> 0 \<and> distinct (map fst (positions (self_map self))) \<and>
    (position, unit) \<in> set (positions (self_map self)) \<longrightarrow>
      count_list (RenderUnits_draw_calls self) (Paint unit (get_surface_rect self position)) = 1)"
proof (intro conjI impI)
  note loop = loop_all_inside [OF assms]
  show "RenderUnits_draw_raises self = None"
    by (simp add: RenderUnits_draw_raises_def loop)
  show "RenderUnits_draw be self = foldl (exec be) self (RenderUnits_draw_calls self)"
    by (simp add: RenderUnits_draw_def)
  show "take (length (Render_draw_calls self)) (RenderUnits_draw_calls self) = Render_draw_calls self"
    by (simp add: RenderUnits_draw_calls_def)
  show "mset (drop (length (Render_draw_calls self)) (RenderUnits_draw_calls self)) =
     image_mset (\<lambda>(position, unit). Paint unit (get_surface_rect self position))
       (mset (positions (self_map self)))"
    by (simp add: RenderUnits_draw_calls_def loop)
  assume a: "radius self \<noteq> 0 \<and> distinct (map fst (positions (self_map self))) \<and>
    (position, unit) \<in> set (positions (self_map self))"
  then show "count_list (RenderUnits_draw_calls self) (Paint unit (get_surface_rect self position)) = 1"
    by (simp add: RenderUnits_draw_calls_def loop count_list_base_paint count_paint_once)
qed

lemma inside_axial:
  assumes r: "0 < radius self"
    and col: "0 \<le> col" "col < cols (self_map self)"
    and row: "\<lceil>of_int col / (2 :: real)\<rceil> \<le> row"
             "row < \<lceil>of_int col / (2 :: real)\<rceil> + rows (self_map self)"
    and ok: "odd (cols (self_map self)) \<or> col < cols (self_map self) - 1"
  shows "rect_inside (get_surface_rect self (row, col)) (Render_width self) (Render_height self)"
proof -
  have "(0 :: real) \<le> of_int col" using col(1) by simp
  then have "0 \<le> radius self * of_int col" using r by simp
  then have l: "0 \<le> rect_left (get_surface_rect self (row, col))"
    unfolding surface_left by linarith
  from top_edge [OF r row(1)] bottom_edge [OF r row(2)] right_edge [OF r col(2) ok, of row] l
  show ?thesis by (simp add: rect_inside_def)
qed

lemma ceilings: "\<lceil>0 / (2 :: real)\<rceil> = 0" "\<lceil>1 / (2 :: real)\<rceil> = 1" "\<lceil>2 / (2 :: real)\<rceil> = 1"
  "\<lceil>3 / (2 :: real)\<rceil> = 2" "\<lceil>4 / (2 :: real)\<rceil> = 2"
  by (simp_all add: ceiling_unique)

lemma demo_positions_inside:
  "\<forall>(p, u) \<in> set (positions (self_map demo_render)).
     rect_inside (get_surface_rect demo_render p) (Render_width demo_render) (Render_height demo_render)"
proof -
  have r: "0 < radius demo_render" by (simp add: demo_fields)
  have "rect_inside (get_surface_rect demo_render (0, 0)) (Render_width demo_render) (Render_height demo_render)"
    by (rule inside_axial [OF r]) (simp_all add: demo_fields ceilings)
  moreover have "rect_inside (get_surface_rect demo_render (3, 2)) (Render_width demo_render) (Render_height demo_render)"
    by (rule inside_axial [OF r]) (simp_all add: demo_fields ceilings)
  moreover have "rect_inside (get_surface_rect demo_render (5, 3)) (Render_width demo_render) (Render_height demo_render)"
    by (rule inside_axial [OF r]) (simp_all add: demo_fields ceilings)
  moreover have "rect_inside (get_surface_rect demo_render (5, 4)) (Render_width demo_render) (Render_height demo_render)"
    by (rule inside_axial [OF r]) (simp_all add: demo_fields ceilings)
  ultimately show ?thesis by (simp add: demo_render_def demo_map_def)
qed

theorem RenderUnits_draw_paints_witness:
  "RenderUnits_draw_raises demo_render = None \<and>
   mset (drop (length (Render_draw_calls demo_render)) (RenderUnits_draw_calls demo_render)) =
     image_mset (\<lambda>(position, unit). Paint unit (get_surface_rect demo_render position))
       (mset (positions (self_map demo_render))) \<and>
   count_list (RenderUnits_draw_calls demo_render) (Paint 1 (get_surface_rect demo_render (3, 2))) = 1"
proof -
  have a: "radius demo_render \<noteq> 0 \<and> distinct (map fst (positions (self_map demo_render))) \<and>
           ((3, 2), 1) \<in> set (positions (self_map demo_render))"
    by (simp add: demo_render_def demo_map_def)
  from a RenderUnits_draw_paints [OF demo_positions_inside, where position = "(3, 2)" and unit = 1]
  show ?thesis by blast
qed

lemma stray_fields:
  "radius stray_render = 32" "rows (self_map stray_render) = 5" "cols (self_map stray_render) = 5"
  "valid_cell (self_map stray_render) = in_grid 5 5"
  "positions (self_map stray_render) = [((0, 0), 0), ((0, 1), 1), ((3, 2), 2)]"
  "colorkey stray_render = None"
  by (simp_all add: stray_render_def stray_map_def)

text \<open>
  C8, as stated, fails: on the five by five map at radius 32 with units on \<open>(0, 0)\<close>,
  \<open>(0, 1)\<close> and \<open>(3, 2)\<close>, the rectangle of \<open>(0, 1)\<close> starts above the surface, so
  \<open>get_surface\<close> raises \<open>ValueError\<close> there: after the base calls the only call is the
  \<open>paint\<close> of the first unit, and the units on \<open>(0, 1)\<close> and \<open>(3, 2)\<close> are not painted.
\<close>

theorem RenderUnits_draw_stops:
  "valid_cell (self_map stray_render) (0, 1) \<and>
   ((0, 1), 1) \<in> set (positions (self_map stray_render)) \<and>
   ((3, 2), 2) \<in> set (positions (self_map stray_render)) \<and>
   RenderUnits_draw_raises stray_render = Some ValueError \<and>
   RenderUnits_draw_calls stray_render =
     [Set_colorkey magenta, Fill magenta, Paint 0 (get_surface_rect stray_render (0, 0))]"
proof -
  have r: "0 < radius stray_render" by (simp add: stray_fields)
  have a: "rect_inside (get_surface_rect stray_render (0, 0))
             (Render_width stray_render) (Render_height stray_render)"
    by (rule inside_axial [OF r]) (simp_all add: stray_fields ceilings)
  have "rect_top (get_surface_rect stray_render (0, 1)) = - (16 * SQRT3)"
    unfolding surface_top by (simp add: stray_fields ceilings)
  then have "rect_top (get_surface_rect stray_render (0, 1)) < 0" using SQRT3_pos by simp
  then have b: "\<not> rect_inside (get_surface_rect stray_render (0, 1))
             (Render_width stray_render) (Render_height stray_render)"
    by (simp add: rect_inside_def)
  have "RenderUnits_loop stray_render (positions (self_map stray_render)) =
          ([Paint 0 (get_surface_rect stray_render (0, 0))], Some ValueError)"
    unfolding stray_fields loop_goes_on [OF a] loop_stops [OF b] by simp
  then show ?thesis
    by (simp add: RenderUnits_draw_raises_def RenderUnits_draw_calls_def Render_draw_calls_def
        stray_fields in_grid_def)
qed

lemma get_surface_frame:
  "get_surface (s\<lparr>colorkey := k, buffer := b\<rparr>) p = get_surface s p"
  by (simp add: get_surface_def get_surface_rect_def Render_width_def Render_height_def)

lemma loop_frame:
  "RenderUnits_loop (s\<lparr>colorkey := k, buffer := b\<rparr>) ps = RenderUnits_loop s ps"
proof (induction ps)
  case Nil
  show ?case by simp
next
  case (Cons a ps)
  obtain p u where a: "a = (p, u)" by (cases a)
  show ?case by (simp add: a get_surface_frame Cons.IH split: sum.split)
qed

lemma loop_no_colorkey: "Set_colorkey k \<notin> set (fst (RenderUnits_loop s ps))"
proof (induction ps)
  case Nil
  show ?case by simp
next
  case (Cons a ps)
  obtain p u where a: "a = (p, u)" by (cases a)
  from Cons.IH show ?case by (auto simp add: a split: sum.split prod.split)
qed

lemma exec_on_pixels:
  assumes "\<forall>k. Set_colorkey k \<notin> set cs"
  shows "foldl (exec be) s cs = s\<lparr>buffer := foldl (on_pixels be) (buffer s) cs\<rparr>"
  using assms
proof (induction cs arbitrary: s)
  case Nil
  then show ?case by simp
next
  case (Cons c cs)
  from Cons.prems have rest: "\<forall>k. Set_colorkey k \<notin> set cs"
    by (metis list.set_intros(2))
  from Cons.prems have c: "\<forall>k. c \<noteq> Set_colorkey k"
    by (metis list.set_intros(1))
  from c have "exec be s c = s\<lparr>buffer := on_pixels be (buffer s) c\<rparr>"
    by (cases c) simp_all
  with Cons.IH [OF rest] show ?case by simp
qed

lemma exec_base:
  "foldl (exec be) s (Render_draw_calls s) =
     s\<lparr>colorkey := Some (case colorkey s of None \<Rightarrow> magenta | Some color \<Rightarrow> color),
       buffer := (\<lambda>_. case colorkey s of None \<Rightarrow> magenta | Some color \<Rightarrow> color)\<rparr>"
  by (cases "colorkey s") (simp_all add: Render_draw_calls_def fill_def)

lemma draw_twice:
  assumes calls: "\<And>s. calls s = Render_draw_calls s @ rest s"
    and rest: "\<And>s k b. rest (s\<lparr>colorkey := k, buffer := b\<rparr>) = rest s"
    and no_key: "\<And>s k. Set_colorkey k \<notin> set (rest s)"
  shows "foldl (exec be) (foldl (exec be) self (calls self)) (calls (foldl (exec be) self (calls self)))
           = foldl (exec be) self (calls self)"
proof -
  define c where "c = (case colorkey self of None \<Rightarrow> magenta | Some color \<Rightarrow> color)"
  define B where "B = foldl (on_pixels be) (\<lambda>_. c) (rest self)"
  have once: "foldl (exec be) s (calls s) =
      s\<lparr>colorkey := Some (case colorkey s of None \<Rightarrow> magenta | Some color \<Rightarrow> color),
        buffer := foldl (on_pixels be)
          (\<lambda>_. case colorkey s of None \<Rightarrow> magenta | Some color \<Rightarrow> color) (rest s)\<rparr>" for s
    unfolding calls foldl_append exec_base
    by (subst exec_on_pixels) (simp_all add: no_key rest)
  have first: "foldl (exec be) self (calls self) = self\<lparr>colorkey := Some c, buffer := B\<rparr>"
    unfolding once c_def B_def by simp
  show ?thesis unfolding first
    by (subst once) (simp add: rest B_def)
qed

text \<open>
  C9: for both renderers, a second \<open>draw\<close> right after the first leaves the renderer as
  the first left it: same colorkey, same pixel buffer.
\<close>

theorem draw_idempotent:
  "RenderGrid_draw (be :: 'u backend) (RenderGrid_draw be self) = RenderGrid_draw be self \<and>
   RenderUnits_draw be (RenderUnits_draw be self) = RenderUnits_draw be self"
proof
  define g where "g = (\<lambda>s :: 'u Render. drop (length (Render_draw_calls s)) (RenderGrid_draw_calls s))"
  have "foldl (exec be) (foldl (exec be) self (RenderGrid_draw_calls self))
          (RenderGrid_draw_calls (foldl (exec be) self (RenderGrid_draw_calls self)))
        = foldl (exec be) self (RenderGrid_draw_calls self)"
  proof (rule draw_twice [where rest = g])
    show "RenderGrid_draw_calls s = Render_draw_calls s @ g s" for s
      by (simp add: g_def RenderGrid_draw_calls_def)
    show "g (s\<lparr>colorkey := k, buffer := b\<rparr>) = g s" for s k b
      by (simp add: g_def RenderGrid_draw_calls_def cong: if_cong)
    show "Set_colorkey k \<notin> set (g s)" for s k
      by (auto simp add: g_def RenderGrid_draw_calls_def Let_def)
  qed
  then show "RenderGrid_draw be (RenderGrid_draw be self) = RenderGrid_draw be self"
    by (simp add: RenderGrid_draw_def)
next
  define u where "u = (\<lambda>s :: 'u Render. drop (length (Render_draw_calls s)) (RenderUnits_draw_calls s))"
  have "foldl (exec be) (foldl (exec be) self (RenderUnits_draw_calls self))
          (RenderUnits_draw_calls (foldl (exec be) self (RenderUnits_draw_calls self)))
        = foldl (exec be) self (RenderUnits_draw_calls self)"
  proof (rule draw_twice [where rest = u])
    show "RenderUnits_draw_calls s = Render_draw_calls s @ u s" for s
      by (simp add: u_def RenderUnits_draw_calls_def)
    show "u (s\<lparr>colorkey := k, buffer := b\<rparr>) = u s" for s k b
      by (simp add: u_def RenderUnits_draw_calls_def loop_frame)
    show "Set_colorkey k \<notin> set (u s)" for s k
      by (simp add: u_def RenderUnits_draw_calls_def loop_no_colorkey)
  qed
  then show "RenderUnits_draw be (RenderUnits_draw be self) = RenderUnits_draw be self"
    by (simp add: RenderUnits_draw_def)
qed

end
